theory Spec2Isabelle
  imports Complex_Main "HOL-Library.Sublist" "HOL-Library.Multiset" "HOL-Library.List_Lexorder"
    "HOL-Library.Char_ord"
begin

section \<open>JSON values and patch operations\<close>

text \<open>
  The Go program works on the values that \<^verbatim>\<open>encoding/json\<close> decodes into \<^verbatim>\<open>any\<close>:
  \<^verbatim>\<open>nil\<close>, \<^verbatim>\<open>bool\<close>, \<^verbatim>\<open>float64\<close>, \<^verbatim>\<open>string\<close>, \<^verbatim>\<open>map[string]any\<close> and \<^verbatim>\<open>[]any\<close>.
  A decoded number is a finite float64, and \<^verbatim>\<open>==\<close> on finite floats is equality of the
  numbers they denote, so a number is a \<^typ>\<open>rat\<close> here.

  A Go map has no order, and \<^verbatim>\<open>range\<close> enumerates it in an order the language leaves
  unspecified. An object is therefore the list of the map's entries in the order in
  which \<^verbatim>\<open>range\<close> enumerates them; two lists with the same entries in another order
  are the same Go map enumerated differently. Keys of a Go map are unique
  (\<open>wf_json\<close> below).
\<close>

datatype json =
    JNull
  | JBool bool
  | JNum rat
  | JString string
  | JObject "(string \<times> json) list"
  | JArray "json list"

text \<open>\<^verbatim>\<open>type Operation struct { Operation string; Path string; Value any }\<close>.
  The Go \<^verbatim>\<open>nil\<close> in \<^verbatim>\<open>Value\<close> is \<open>JNull\<close>: the struct cannot tell an absent value
  from a JSON null.\<close>

record Operation =
  Operation :: string
  Path :: string
  Value :: json

text \<open>What a call can end with besides a result: an \<^verbatim>\<open>error\<close> value, or a panic.\<close>

datatype fault = Error string | Panic string

definition errBadJSONDoc :: fault where
  "errBadJSONDoc = Error ''invalid JSON Document''"

definition NewOperation :: "string \<Rightarrow> string \<Rightarrow> json \<Rightarrow> Operation" where
  "NewOperation op path v = \<lparr>Operation = op, Path = path, Value = v\<rparr>"

text \<open>\<^verbatim>\<open>m[key]\<close> on a Go map: the zero value \<^verbatim>\<open>nil\<close> when the key is missing.\<close>

definition index :: "(string \<times> json) list \<Rightarrow> string \<Rightarrow> json" where
  "index m key = (case map_of m key of None \<Rightarrow> JNull | Some v \<Rightarrow> v)"

fun wf_json :: "json \<Rightarrow> bool" where
  "wf_json (JObject m) = (distinct (map fst m) \<and> list_all (\<lambda>e. wf_json (snd e)) m)"
| "wf_json (JArray xs) = list_all wf_json xs"
| "wf_json _ = True"

section \<open>Operation.MarshalJSON\<close>

text \<open>\<^verbatim>\<open>json.Marshal\<close> belongs to the standard library; it is the parameter \<open>marshal\<close>.
  The buffer is the string written so far.\<close>

definition MarshalJSON :: "(json \<Rightarrow> fault + string) \<Rightarrow> Operation \<Rightarrow> fault + string" where
  "MarshalJSON marshal j =
    (let b = [];
         b = b @ ''{'';
         b = b @ ''\"op\":\"'';
         b = b @ Operation j;
         b = b @ ''\"'';
         b = b @ '',\"path\":\"'';
         b = b @ Path j;
         b = b @ ''\"''
     in if Value j \<noteq> JNull \<or> Operation j = ''replace'' \<or> Operation j = ''add'' then
          (case marshal (Value j) of
             Inl err \<Rightarrow> Inl err
           | Inr v \<Rightarrow> Inr (b @ '',\"value\":'' @ v @ ''}''))
        else Inr (b @ ''}''))"

section \<open>Deep equality\<close>

lemma size_index_less: "size (index m key) < Suc (size_list (size_prod (\<lambda>x. 0) size) m)"
proof (induction m)
  case Nil
  then show ?case by (simp add: index_def)
next
  case (Cons e m)
  then show ?case by (cases e) (auto simp: index_def)
qed

lemma size_nth_less: "i < length xs \<Longrightarrow> size (xs ! i) < Suc (size_list size xs)"
proof (induction xs arbitrary: i)
  case Nil
  then show ?case by simp
next
  case (Cons x xs)
  show ?case
  proof (cases i)
    case 0
    then show ?thesis by simp
  next
    case (Suc k)
    with Cons.prems have "k < length xs" by simp
    from Cons.IH [OF this] Suc show ?thesis by simp
  qed
qed

function matchesValue :: "json \<Rightarrow> json \<Rightarrow> bool" where
  "matchesValue (JString at') bv = (case bv of JString bt' \<Rightarrow> bt' = at' | _ \<Rightarrow> False)"
| "matchesValue (JNum at') bv = (case bv of JNum bt' \<Rightarrow> bt' = at' | _ \<Rightarrow> False)"
| "matchesValue (JBool at') bv = (case bv of JBool bt' \<Rightarrow> bt' = at' | _ \<Rightarrow> False)"
| "matchesValue (JObject at') bv =
    (case bv of
       JObject bt' \<Rightarrow>
         list_all (\<lambda>key. matchesValue (index at' key) (index bt' key)) (map fst at') \<and>
         list_all (\<lambda>key. matchesValue (index at' key) (index bt' key)) (map fst bt')
     | _ \<Rightarrow> False)"
| "matchesValue (JArray at') bv =
    (case bv of
       JArray bt' \<Rightarrow>
         if length bt' \<noteq> length at' then False
         else list_all (\<lambda>key. matchesValue (at' ! key) (bt' ! key)) [0..<length at'] \<and>
              list_all (\<lambda>key. matchesValue (at' ! key) (bt' ! key)) [0..<length bt']
     | _ \<Rightarrow> False)"
| "matchesValue JNull bv = False"
  by pat_completeness auto
termination
  by (relation "measure (\<lambda>(av, bv). size av)") (auto simp: size_index_less size_nth_less)

section \<open>Paths\<close>

text \<open>\<^verbatim>\<open>strings.NewReplacer("~", "~0", "/", "~1")\<close>: one pass over the bytes.\<close>

definition rfc6901Encoder :: "string \<Rightarrow> string" where
  "rfc6901Encoder s =
    concat (map (\<lambda>c. if c = CHR ''~'' then ''~0'' else if c = CHR ''/'' then ''~1'' else [c]) s)"

text \<open>\<^verbatim>\<open>strconv.Itoa\<close> on the array indices the program passes, which are never negative.\<close>

fun Itoa :: "nat \<Rightarrow> string" where
  "Itoa n = (if n < 10 then [''0123456789'' ! n] else Itoa (n div 10) @ [''0123456789'' ! (n mod 10)])"

declare Itoa.simps [simp del]

definition makePath :: "string \<Rightarrow> string \<Rightarrow> string" where
  "makePath path newPart =
    (if path = [] then ''/'' @ rfc6901Encoder newPart
     else if last path = CHR ''/'' then path @ rfc6901Encoder newPart
     else path @ ''/'' @ rfc6901Encoder newPart)"

definition makePathInt :: "string \<Rightarrow> nat \<Rightarrow> string" where
  "makePathInt path newPart = makePath path (Itoa newPart)"

section \<open>Kinds\<close>

fun typesAreCompatible :: "json \<Rightarrow> json \<Rightarrow> bool" where
  "typesAreCompatible (JObject _) bv = (case bv of JObject _ \<Rightarrow> True | _ \<Rightarrow> False)"
| "typesAreCompatible (JString _) bv =
    (case bv of JString _ \<Rightarrow> True | JNum _ \<Rightarrow> True | JBool _ \<Rightarrow> True | _ \<Rightarrow> False)"
| "typesAreCompatible (JNum _) bv =
    (case bv of JString _ \<Rightarrow> True | JNum _ \<Rightarrow> True | JBool _ \<Rightarrow> True | _ \<Rightarrow> False)"
| "typesAreCompatible (JBool _) bv =
    (case bv of JString _ \<Rightarrow> True | JNum _ \<Rightarrow> True | JBool _ \<Rightarrow> True | _ \<Rightarrow> False)"
| "typesAreCompatible (JArray _) bv = (case bv of JArray _ \<Rightarrow> True | _ \<Rightarrow> False)"
| "typesAreCompatible JNull bv = False"

fun isBasicType :: "json \<Rightarrow> bool" where
  "isBasicType (JString _) = True"
| "isBasicType (JNum _) = True"
| "isBasicType (JBool _) = True"
| "isBasicType _ = False"

text \<open>The inner loop of \<^verbatim>\<open>isSimpleArray\<close> over the values of an object element.\<close>

fun isSimpleArray_values :: "(string \<times> json) list \<Rightarrow> bool" where
  "isSimpleArray_values [] = True"
| "isSimpleArray_values ((key, v) # av) =
    (if v = JNull then isSimpleArray_values av
     else if \<not> isBasicType v then False
     else isSimpleArray_values av)"

fun isSimpleArray :: "json list \<Rightarrow> bool" where
  "isSimpleArray [] = True"
| "isSimpleArray (JString _ # a) = isSimpleArray a"
| "isSimpleArray (JNum _ # a) = isSimpleArray a"
| "isSimpleArray (JBool _ # a) = isSimpleArray a"
| "isSimpleArray (JObject av # a) = isSimpleArray_values av"
| "isSimpleArray (JArray _ # a) = False"
| "isSimpleArray (JNull # a) = False"


section \<open>The edit-distance matrix\<close>

text \<open>The helper \<^verbatim>\<open>min\<close> of the source.\<close>

definition minInt :: "nat \<Rightarrow> nat \<Rightarrow> nat" where
  "minInt x y = (if y < x then y else x)"

text \<open>\<^verbatim>\<open>d[i][j] = v\<close> on a slice of slices.\<close>

definition setCell :: "nat list list \<Rightarrow> nat \<Rightarrow> nat \<Rightarrow> nat \<Rightarrow> nat list list" where
  "setCell d i j v = d[i := (d ! i)[j := v]]"

text \<open>The part of \<^verbatim>\<open>compareEditDistance\<close> that builds \<^verbatim>\<open>d\<close>: the three loops, each a
  fold over the values its counter takes. Every index the loops use is in range
  (\<open>m + 1\<close> rows of \<open>n + 1\<close> cells; \<open>s ! (i - 1)\<close> with \<open>1 \<le> i \<le> m\<close>).\<close>

definition editDistanceCell :: "json list \<Rightarrow> json list \<Rightarrow> nat list list \<Rightarrow> nat \<Rightarrow> nat \<Rightarrow> nat" where
  "editDistanceCell s t d i j =
    (if matchesValue (s ! (i - 1)) (t ! (j - 1)) then d ! (i - 1) ! (j - 1)
     else
       (let del = d ! (i - 1) ! j + 1;
            add = d ! i ! (j - 1) + 1;
            rep = d ! (i - 1) ! (j - 1) + 1
        in minInt rep (minInt add del)))"

definition editDistanceMatrix :: "json list \<Rightarrow> json list \<Rightarrow> nat list list" where
  "editDistanceMatrix s t =
    (let m = length s;
         n = length t;
         d = replicate (m + 1) [];
         d = fold (\<lambda>i d. setCell (d[i := replicate (n + 1) 0]) i 0 i) [0..<m + 1] d;
         d = fold (\<lambda>j d. setCell d 0 j j) [0..<n + 1] d;
         d = fold (\<lambda>j d. fold (\<lambda>i d. setCell d i j (editDistanceCell s t d i j)) [1..<m + 1] d)
               [1..<n + 1] d
     in d)"

text \<open>The test \<^verbatim>\<open>matrix[i1][j1]+k == matrix[i2][j2]\<close>; an index out of range panics.\<close>

definition cellPlusEq :: "nat list list \<Rightarrow> nat \<Rightarrow> nat \<Rightarrow> nat \<Rightarrow> nat \<Rightarrow> nat \<Rightarrow> fault + bool" where
  "cellPlusEq matrix i1 j1 k i2 j2 =
    (if i1 < length matrix \<and> j1 < length (matrix ! i1) \<and>
        i2 < length matrix \<and> j2 < length (matrix ! i2)
     then Inr (matrix ! i1 ! j1 + k = matrix ! i2 ! j2)
     else Inl (Panic ''index out of range''))"

section \<open>The diff engine\<close>

text \<open>
  \<^verbatim>\<open>handleValues\<close>, \<^verbatim>\<open>diff\<close>, \<^verbatim>\<open>compareEditDistance\<close> and \<^verbatim>\<open>backtrace\<close> call each other.
  \<open>diff_added\<close> is the first loop of \<^verbatim>\<open>diff\<close> (over the entries of \<^verbatim>\<open>b\<close>), \<open>diff_removed\<close>
  its second loop (over the keys of \<^verbatim>\<open>a\<close>), and \<open>handleValues_aligned\<close> the third loop of the
  positional array branch of \<^verbatim>\<open>handleValues\<close>. A failed type assertion, a slice index
  out of range and the \<^verbatim>\<open>default\<close> branch panic; \<^verbatim>\<open>backtrace\<close> drops the error of
  \<^verbatim>\<open>handleValues\<close> (\<^verbatim>\<open>p2, _ :=\<close>), which leaves \<^verbatim>\<open>p2\<close> nil, but not a panic.
\<close>

lemma size_map_of_less:
  fixes m :: "(string \<times> json) list"
  shows "map_of m key = Some v \<Longrightarrow> size v < Suc (size_list (size_prod (\<lambda>x. 0) size) m)"
  using size_index_less [of m key] by (simp add: index_def)

lemma size_nth_pair_less:
  fixes xs ys :: "json list"
  assumes "i < length xs" and "j < length ys"
  shows "size (xs ! i) + size (ys ! j) < Suc (Suc (size_list size xs + size_list size ys))"
  using size_nth_less [OF assms(1)] size_nth_less [OF assms(2)] by simp

lemma size_map_of_pair_less:
  fixes m :: "(string \<times> json) list"
  assumes "map_of m key = Some v"
  shows "size v < 4 + (size_list (size_prod (\<lambda>x. 0) size) m + n)"
  using size_map_of_less [OF assms] by simp

definition diff_removed :: "(string \<times> json) list \<Rightarrow> (string \<times> json) list \<Rightarrow> string \<Rightarrow> Operation list" where
  "diff_removed a b path =
    map (\<lambda>key. NewOperation ''remove'' (makePath path key) JNull)
      (filter (\<lambda>key. map_of b key = None) (map fst a))"

function handleValues :: "json \<Rightarrow> json \<Rightarrow> string \<Rightarrow> Operation list \<Rightarrow> fault + Operation list"
  and diff :: "(string \<times> json) list \<Rightarrow> (string \<times> json) list \<Rightarrow> string \<Rightarrow> Operation list \<Rightarrow> fault + Operation list"
  and diff_added :: "(string \<times> json) list \<Rightarrow> (string \<times> json) list \<Rightarrow> string \<Rightarrow> Operation list \<Rightarrow> fault + Operation list"
  and handleValues_aligned :: "nat \<Rightarrow> nat \<Rightarrow> json list \<Rightarrow> json list \<Rightarrow> string \<Rightarrow> Operation list \<Rightarrow> fault + Operation list"
  and compareEditDistance :: "json list \<Rightarrow> json list \<Rightarrow> string \<Rightarrow> fault + Operation list"
  and backtrace :: "json list \<Rightarrow> json list \<Rightarrow> string \<Rightarrow> nat \<Rightarrow> nat \<Rightarrow> nat list list \<Rightarrow> fault + Operation list"
where
  "handleValues av bv p patch =
    (if av = JNull \<and> bv = JNull then Inr patch
     else if \<not> typesAreCompatible av bv then Inr (patch @ [NewOperation ''replace'' p bv])
     else
       (case av of
          JObject at' \<Rightarrow>
            (case bv of
               JObject bt' \<Rightarrow> diff at' bt' p patch
             | _ \<Rightarrow> Inl (Panic ''interface conversion''))
        | JString _ \<Rightarrow>
            Inr (if \<not> matchesValue av bv then patch @ [NewOperation ''replace'' p bv] else patch)
        | JNum _ \<Rightarrow>
            Inr (if \<not> matchesValue av bv then patch @ [NewOperation ''replace'' p bv] else patch)
        | JBool _ \<Rightarrow>
            Inr (if \<not> matchesValue av bv then patch @ [NewOperation ''replace'' p bv] else patch)
        | JArray at' \<Rightarrow>
            (case bv of
               JArray bt' \<Rightarrow>
                 if isSimpleArray at' \<and> isSimpleArray bt' then
                   (case compareEditDistance at' bt' p of
                      Inl err \<Rightarrow> Inl err
                    | Inr ops \<Rightarrow> Inr (patch @ ops))
                 else
                   (let n = minInt (length at') (length bt');
                        patch = patch @
                          map (\<lambda>i. NewOperation ''remove'' (makePathInt p i) JNull)
                            (rev [n..<length at']);
                        patch = patch @
                          map (\<lambda>i. NewOperation ''add'' (makePathInt p i) (bt' ! i))
                            [n..<length bt']
                    in handleValues_aligned 0 n at' bt' p patch)
             | _ \<Rightarrow> Inl (Panic ''interface conversion''))
        | JNull \<Rightarrow> Inl (Panic ''Unknown type:<nil> '')))"
| "diff a b path patch =
    (case diff_added b a path patch of
       Inl err \<Rightarrow> Inl err
     | Inr patch \<Rightarrow> Inr (patch @ diff_removed a b path))"
| "diff_added [] a path patch = Inr patch"
| "diff_added ((key, bv) # b) a path patch =
    (let p = makePath path key in
     case map_of a key of
       None \<Rightarrow> diff_added b a path (patch @ [NewOperation ''add'' p bv])
     | Some av \<Rightarrow>
         (case handleValues av bv p patch of
            Inl err \<Rightarrow> Inl err
          | Inr patch \<Rightarrow> diff_added b a path patch))"
| "handleValues_aligned i n at' bt' p patch =
    (if i < n then
       (if i < length at' \<and> i < length bt' then
          (case handleValues (at' ! i) (bt' ! i) (makePathInt p i) patch of
             Inl err \<Rightarrow> Inl err
           | Inr patch \<Rightarrow> handleValues_aligned (i + 1) n at' bt' p patch)
        else Inl (Panic ''index out of range''))
     else Inr patch)"
| "compareEditDistance s t p =
    backtrace s t p (length s) (length t) (editDistanceMatrix s t)"
| "backtrace s t p i j matrix =
    (case (if i > 0 then cellPlusEq matrix (i - 1) j 1 i j else Inr False) of
       Inl err \<Rightarrow> Inl err
     | Inr True \<Rightarrow>
         (case backtrace s t p (i - 1) j matrix of
            Inl err \<Rightarrow> Inl err
          | Inr rest \<Rightarrow> Inr (NewOperation ''remove'' (makePathInt p (i - 1)) JNull # rest))
     | Inr False \<Rightarrow>
    (case (if j > 0 then cellPlusEq matrix i (j - 1) 1 i j else Inr False) of
       Inl err \<Rightarrow> Inl err
     | Inr True \<Rightarrow>
         (if j - 1 < length t then
            (case backtrace s t p i (j - 1) matrix of
               Inl err \<Rightarrow> Inl err
             | Inr rest \<Rightarrow> Inr (NewOperation ''add'' (makePathInt p i) (t ! (j - 1)) # rest))
          else Inl (Panic ''index out of range''))
     | Inr False \<Rightarrow>
    (case (if i > 0 \<and> j > 0 then cellPlusEq matrix (i - 1) (j - 1) 1 i j else Inr False) of
       Inl err \<Rightarrow> Inl err
     | Inr True \<Rightarrow>
         (if s = [] then Inl (Panic ''index out of range'')
          else if isBasicType (s ! 0) then
            (if j - 1 < length t then
               (case backtrace s t p (i - 1) (j - 1) matrix of
                  Inl err \<Rightarrow> Inl err
                | Inr rest \<Rightarrow>
                    Inr (NewOperation ''replace'' (makePathInt p (i - 1)) (t ! (j - 1)) # rest))
             else Inl (Panic ''index out of range''))
          else if i - 1 < length s \<and> j - 1 < length t then
            (case handleValues (s ! (i - 1)) (t ! (j - 1)) (makePathInt p (i - 1)) [] of
               Inl (Panic msg) \<Rightarrow> Inl (Panic msg)
             | r \<Rightarrow>
                 (let p2 = (case r of Inr ops \<Rightarrow> ops | Inl _ \<Rightarrow> []) in
                  case backtrace s t p (i - 1) (j - 1) matrix of
                    Inl err \<Rightarrow> Inl err
                  | Inr rest \<Rightarrow> Inr (p2 @ rest)))
          else Inl (Panic ''index out of range''))
     | Inr False \<Rightarrow>
    (case (if i > 0 \<and> j > 0 then cellPlusEq matrix (i - 1) (j - 1) 0 i j else Inr False) of
       Inl err \<Rightarrow> Inl err
     | Inr True \<Rightarrow> backtrace s t p (i - 1) (j - 1) matrix
     | Inr False \<Rightarrow> Inr []))))"
  by pat_completeness auto



termination
proof (relation "inv_image (less_than <*lex*> less_than <*lex*> less_than)
    (\<lambda>x. case x of
        Inl (Inl (av, bv, p, patch)) \<Rightarrow> (size av + size bv, 3::nat, 0::nat)
      | Inl (Inr (Inl (a, b, path, patch))) \<Rightarrow> (size (JObject a) + size (JObject b), 2, 0)
      | Inl (Inr (Inr (b, a, path, patch))) \<Rightarrow> (size (JObject a) + size (JObject b), 1, 0)
      | Inr (Inl (i, n, at', bt', p, patch)) \<Rightarrow> (size (JArray at') + size (JArray bt'), 1, n - i)
      | Inr (Inr (Inl (s, t, p))) \<Rightarrow> (size (JArray s) + size (JArray t), 2, 0)
      | Inr (Inr (Inr (s, t, p, i, j, m))) \<Rightarrow> (size (JArray s) + size (JArray t), 1, i + j))",
    goal_cases)
  case 1
  show ?case by (intro wf_inv_image wf_lex_prod wf_less_than)
qed (auto split: if_splits simp: size_nth_pair_less size_map_of_pair_less)

declare handleValues.simps [simp del] diff.simps [simp del] handleValues_aligned.simps [simp del]
  compareEditDistance.simps [simp del] backtrace.simps [simp del]

text \<open>\<^verbatim>\<open>CreatePatch\<close> and \<^verbatim>\<open>CreatePatchFromBytes\<close>; \<^verbatim>\<open>json.Unmarshal\<close> is the parameter
  \<open>unmarshal\<close>.\<close>

definition CreatePatch :: "json \<Rightarrow> json \<Rightarrow> fault + Operation list" where
  "CreatePatch a b = handleValues a b [] []"

definition CreatePatchFromBytes ::
    "(string \<Rightarrow> fault + json) \<Rightarrow> string \<Rightarrow> string \<Rightarrow> fault + Operation list" where
  "CreatePatchFromBytes unmarshal a b =
    (case unmarshal a of
       Inl err \<Rightarrow> Inl errBadJSONDoc
     | Inr aI \<Rightarrow>
         (case unmarshal b of
            Inl err \<Rightarrow> Inl errBadJSONDoc
          | Inr bI \<Rightarrow> CreatePatch aI bI))"

section \<open>Kind dispatch\<close>

text \<open>The six kinds of the specification, and its compatibility rule in its own words:
  object only with object, array only with array, a scalar (string, number, boolean) with
  any scalar, null with nothing.\<close>

datatype kind = KNull | KBool | KNum | KString | KObject | KArray

fun kindOf :: "json \<Rightarrow> kind" where
  "kindOf JNull = KNull"
| "kindOf (JBool _) = KBool"
| "kindOf (JNum _) = KNum"
| "kindOf (JString _) = KString"
| "kindOf (JObject _) = KObject"
| "kindOf (JArray _) = KArray"

definition scalarKind :: "kind \<Rightarrow> bool" where
  "scalarKind k = (k = KString \<or> k = KNum \<or> k = KBool)"

definition compatibleKinds :: "kind \<Rightarrow> kind \<Rightarrow> bool" where
  "compatibleKinds ka kb =
    ((ka = KObject \<and> kb = KObject) \<or> (ka = KArray \<and> kb = KArray) \<or>
     (scalarKind ka \<and> scalarKind kb))"

lemma typesAreCompatible_kinds:
  "typesAreCompatible av bv = compatibleKinds (kindOf av) (kindOf bv)"
  by (cases av; cases bv) (simp_all add: compatibleKinds_def scalarKind_def)



section \<open>Serialization\<close>

text \<open>
  What a reader of the serialized text sees. The member names of a JSON object text are
  read by one pass over its characters after the opening brace: \<open>d\<close> is the nesting depth
  (1 inside the object itself), the mode says whether the pass is before a member name,
  inside one, inside a string of a value, or elsewhere in a value. A backslash inside a
  string takes the next character with it, so an escaped quote does not end the string.
  Names are returned as they are spelled in the text, in order.
\<close>

datatype scanMode = AtKey | InName string | InNameEsc string | AtValue | InString | InStringEsc

fun scanStep :: "char \<Rightarrow> nat \<times> scanMode \<times> string list \<Rightarrow> nat \<times> scanMode \<times> string list" where
  "scanStep c (d, AtKey, ks) = (if c = CHR ''\"'' then (d, InName [], ks) else (d, AtKey, ks))"
| "scanStep c (d, InName s, ks) =
     (if c = CHR ''\"'' then (d, AtValue, ks @ [s])
      else if c = CHR 0x5C then (d, InNameEsc s, ks)
      else (d, InName (s @ [c]), ks))"
| "scanStep c (d, InNameEsc s, ks) = (d, InName (s @ [CHR 0x5C, c]), ks)"
| "scanStep c (d, AtValue, ks) =
     (if c = CHR ''\"'' then (d, InString, ks)
      else if c = CHR ''{'' \<or> c = CHR ''['' then (Suc d, AtValue, ks)
      else if c = CHR ''}'' \<or> c = CHR '']'' then (d - 1, AtValue, ks)
      else if c = CHR '','' \<and> d = 1 then (d, AtKey, ks)
      else (d, AtValue, ks))"
| "scanStep c (d, InString, ks) =
     (if c = CHR ''\"'' then (d, AtValue, ks)
      else if c = CHR 0x5C then (d, InStringEsc, ks)
      else (d, InString, ks))"
| "scanStep c (d, InStringEsc, ks) = (d, InString, ks)"

definition memberNames :: "string \<Rightarrow> string list" where
  "memberNames text =
     (case text of
        [] \<Rightarrow> []
      | c # rest \<Rightarrow>
          if c = CHR ''{'' then snd (snd (fold scanStep rest (1, AtKey, []))) else [])"

text \<open>A text that needs no escaping inside a JSON string: no quote and no backslash.\<close>

definition plainText :: "string \<Rightarrow> bool" where
  "plainText s = (CHR ''\"'' \<notin> set s \<and> CHR 0x5C \<notin> set s)"

text \<open>The text of one complete JSON value: read as the value of a member, it leaves the
  pass where it was, with every string and bracket closed.\<close>

definition completeValue :: "string \<Rightarrow> bool" where
  "completeValue v = (\<forall>ks. fold scanStep v (1, AtValue, ks) = (1, AtValue, ks))"

lemma scanStep_InString_plain:
  "plainText s \<Longrightarrow> fold scanStep s (d, InString, ks) = (d, InString, ks)"
  by (induction s) (auto simp add: plainText_def)

text \<open>
  Where the operation and the path need no escaping, the serialized object has the members
  \<^verbatim>\<open>op\<close> and \<^verbatim>\<open>path\<close>, and the member \<^verbatim>\<open>value\<close> exactly when the value is not nil or the
  operation is \<^verbatim>\<open>replace\<close> or \<^verbatim>\<open>add\<close>.
\<close>

theorem MarshalJSON_memberNames:
  assumes op: "plainText (Operation j)" and path: "plainText (Path j)"
    and v: "marshal (Value j) = Inr v" and cv: "completeValue v"
  shows "\<exists>out. MarshalJSON marshal j = Inr out \<and>
           memberNames out = [''op'', ''path''] @
             (if Value j \<noteq> JNull \<or> Operation j = ''replace'' \<or> Operation j = ''add''
              then [''value''] else [])"
proof -
  have cv': "fold scanStep v (Suc 0, AtValue, ks) = (Suc 0, AtValue, ks)" for ks
    using cv by (simp add: completeValue_def)
  show ?thesis
    using v by (simp add: MarshalJSON_def Let_def memberNames_def
        scanStep_InString_plain [OF op] scanStep_InString_plain [OF path] cv')
qed

theorem MarshalJSON_memberNames_witness:
  "plainText ''replace'' \<and> plainText ''remove'' \<and> plainText ''/a'' \<and> completeValue ''null'' \<and>
   (\<exists>out. MarshalJSON (\<lambda>v. Inr ''null'') (NewOperation ''replace'' ''/a'' JNull) = Inr out \<and>
      memberNames out = [''op'', ''path'', ''value'']) \<and>
   (\<exists>out. MarshalJSON (\<lambda>v. Inr ''null'') (NewOperation ''remove'' ''/a'' JNull) = Inr out \<and>
      memberNames out = [''op'', ''path''])"
  using MarshalJSON_memberNames [of "NewOperation ''replace'' ''/a'' JNull" "\<lambda>v. Inr ''null''" "''null''"]
    MarshalJSON_memberNames [of "NewOperation ''remove'' ''/a'' JNull" "\<lambda>v. Inr ''null''" "''null''"]
  by (simp add: NewOperation_def plainText_def completeValue_def)

section \<open>Deep equality and null\<close>

lemma index_distinct:
  "distinct (map fst m) \<Longrightarrow> (k, v) \<in> set m \<Longrightarrow> index m k = v"
  by (simp add: index_def)

lemma editDistanceMatrix_single:
  "\<not> matchesValue x y \<Longrightarrow> editDistanceMatrix [x] [y] = [[0, 1], [1, 1]]"
  by (simp add: editDistanceMatrix_def editDistanceCell_def setCell_def minInt_def upt_conv_Cons
      Let_def)

text \<open>
  Claim C9. \<open>matchesValue\<close> is false on two nulls, and so an object that maps some key
  to null does not match itself; the edit-distance matrix of the one-element array
  holding such an object against itself ends in distance 1, not 0.
\<close>

theorem matchesValue_null_not_reflexive:
  "matchesValue JNull JNull = False \<and>
   (distinct (map fst m) \<and> (key, JNull) \<in> set m \<longrightarrow>
      matchesValue (JObject m) (JObject m) = False \<and>
      editDistanceMatrix [JObject m] [JObject m] = [[0, 1], [1, 1]])"
proof -
  have "\<not> matchesValue (JObject m) (JObject m)"
    if d: "distinct (map fst m)" and k: "(key, JNull) \<in> set m"
  proof -
    from index_distinct [OF d k] have "index m key = JNull" .
    moreover from k have "key \<in> set (map fst m)" by force
    ultimately have "\<not> list_all (\<lambda>key. matchesValue (index m key) (index m key)) (map fst m)"
      unfolding list_all_iff by (metis matchesValue.simps(6))
    then show ?thesis by simp
  qed
  then show ?thesis using editDistanceMatrix_single [of "JObject m" "JObject m"] by simp
qed

theorem matchesValue_null_not_reflexive_witness:
  "distinct (map fst [(''a'', JNull)]) \<and> (''a'', JNull) \<in> set [(''a'', JNull)] \<and>
   matchesValue (JObject [(''a'', JNull)]) (JObject [(''a'', JNull)]) = False \<and>
   editDistanceMatrix [JObject [(''a'', JNull)]] [JObject [(''a'', JNull)]] = [[0, 1], [1, 1]]"
  using matchesValue_null_not_reflexive [of "[(''a'', JNull)]" "''a''"] by simp

section \<open>The matrix has m + 1 rows of n + 1 cells\<close>

definition matrixDims :: "nat list list \<Rightarrow> nat \<Rightarrow> nat \<Rightarrow> bool" where
  "matrixDims d rows cols = (length d = rows \<and> list_all (\<lambda>row. length row = cols) d)"

lemma matrixDims_nth: "matrixDims d rows cols \<Longrightarrow> i < rows \<Longrightarrow> length (d ! i) = cols"
  by (simp add: matrixDims_def list_all_length)

lemma matrixDims_length: "matrixDims d rows cols \<Longrightarrow> length d = rows"
  by (simp add: matrixDims_def)

lemma setCell_dims: "matrixDims d rows cols \<Longrightarrow> matrixDims (setCell d i j v) rows cols"
  by (cases "i < length d") (auto simp: matrixDims_def setCell_def list_all_length nth_list_update)

lemma fold_invariant:
  assumes "P d" and "\<And>x d. x \<in> set xs \<Longrightarrow> P d \<Longrightarrow> P (f x d)"
  shows "P (fold f xs d)"
  using assms by (induction xs arbitrary: d) auto

lemma initRow_step:
  assumes "k < length d"
  shows "length (setCell (d[k := replicate (n + 1) 0]) k 0 k) = length d"
    and "length (setCell (d[k := replicate (n + 1) 0]) k 0 k ! k) = n + 1"
    and "i \<noteq> k \<Longrightarrow> setCell (d[k := replicate (n + 1) 0]) k 0 k ! i = d ! i"
  using assms by (simp_all add: setCell_def)

lemma initRows_dims:
  "k \<le> m + 1 \<Longrightarrow>
   length (fold (\<lambda>i d. setCell (d[i := replicate (n + 1) 0]) i 0 i) [0..<k] (replicate (m + 1) [])) = m + 1 \<and>
   (\<forall>i<k. length (fold (\<lambda>i d. setCell (d[i := replicate (n + 1) 0]) i 0 i) [0..<k] (replicate (m + 1) []) ! i) = n + 1)"
proof (induction k)
  case 0
  then show ?case by simp
next
  case (Suc k)
  let ?d = "fold (\<lambda>i d. setCell (d[i := replicate (n + 1) 0]) i 0 i) [0..<k] (replicate (m + 1) [])"
  from Suc have len: "length ?d = m + 1" and rows: "\<forall>i<k. length (?d ! i) = n + 1" and k: "k < length ?d"
    by simp_all
  have step: "fold (\<lambda>i d. setCell (d[i := replicate (n + 1) 0]) i 0 i) [0..<Suc k] (replicate (m + 1) [])
      = setCell (?d[k := replicate (n + 1) 0]) k 0 k"
    by simp
  have a: "length (setCell (?d[k := replicate (n + 1) 0]) k 0 k) = m + 1"
    using initRow_step(1) [OF k] len by simp
  have b: "length (setCell (?d[k := replicate (n + 1) 0]) k 0 k ! i) = n + 1" if "i < Suc k" for i
  proof (cases "i = k")
    case True
    then show ?thesis using initRow_step(2) [OF k] by simp
  next
    case False
    with that have "i < k" by simp
    with rows have "length (?d ! i) = n + 1" by simp
    with initRow_step(3) [OF k False] show ?thesis by simp
  qed
  show ?case unfolding step using a b by blast
qed

lemma editDistanceMatrix_dims:
  "matrixDims (editDistanceMatrix s t) (length s + 1) (length t + 1)"
proof -
  let ?m = "length s" and ?n = "length t"
  let ?d1 = "fold (\<lambda>i d. setCell (d[i := replicate (?n + 1) 0]) i 0 i) [0..<?m + 1] (replicate (?m + 1) [])"
  have d1: "matrixDims ?d1 (?m + 1) (?n + 1)"
    using initRows_dims [of "?m + 1" ?m ?n] by (simp add: matrixDims_def list_all_length)
  let ?d2 = "fold (\<lambda>j d. setCell d 0 j j) [0..<?n + 1] ?d1"
  have d2: "matrixDims ?d2 (?m + 1) (?n + 1)"
  proof (rule fold_invariant [where P = "\<lambda>d. matrixDims d (?m + 1) (?n + 1)"])
    show "matrixDims ?d1 (?m + 1) (?n + 1)" by (rule d1)
  next
    fix x d assume "matrixDims d (?m + 1) (?n + 1)"
    then show "matrixDims (setCell d 0 x x) (?m + 1) (?n + 1)" by (rule setCell_dims)
  qed
  let ?d3 = "fold (\<lambda>j d. fold (\<lambda>i d. setCell d i j (editDistanceCell s t d i j)) [1..<?m + 1] d) [1..<?n + 1] ?d2"
  have d3: "matrixDims ?d3 (?m + 1) (?n + 1)"
  proof (rule fold_invariant [where P = "\<lambda>d. matrixDims d (?m + 1) (?n + 1)"])
    show "matrixDims ?d2 (?m + 1) (?n + 1)" by (rule d2)
  next
    fix j d assume d: "matrixDims d (?m + 1) (?n + 1)"
    show "matrixDims (fold (\<lambda>i d. setCell d i j (editDistanceCell s t d i j)) [1..<?m + 1] d)
            (?m + 1) (?n + 1)"
    proof (rule fold_invariant [where P = "\<lambda>d. matrixDims d (?m + 1) (?n + 1)"])
      show "matrixDims d (?m + 1) (?n + 1)" by (rule d)
    next
      fix i d' assume "matrixDims d' (?m + 1) (?n + 1)"
      then show "matrixDims (setCell d' i j (editDistanceCell s t d' i j)) (?m + 1) (?n + 1)"
        by (rule setCell_dims)
    qed
  qed
  show ?thesis unfolding editDistanceMatrix_def Let_def by (rule d3)
qed

lemma cellPlusEq_dims:
  "matrixDims matrix rows cols \<Longrightarrow> i1 < rows \<Longrightarrow> j1 < cols \<Longrightarrow> i2 < rows \<Longrightarrow> j2 < cols \<Longrightarrow>
   cellPlusEq matrix i1 j1 k i2 j2 = Inr (matrix ! i1 ! j1 + k = matrix ! i2 ! j2)"
  by (simp add: cellPlusEq_def matrixDims_nth matrixDims_length)

section \<open>The engine always returns a patch\<close>

text \<open>\<open>under p ops\<close>: every operation of \<open>ops\<close> has a path that starts with \<open>p\<close>.\<close>

definition under :: "string \<Rightarrow> Operation list \<Rightarrow> bool" where
  "under p ops = list_all (\<lambda>op. prefix p (Path op)) ops"

lemma under_Nil [simp]: "under p []"
  by (simp add: under_def)

lemma under_Cons [simp]: "under p (op # ops) = (prefix p (Path op) \<and> under p ops)"
  by (simp add: under_def)

lemma under_append [simp]: "under p (xs @ ys) = (under p xs \<and> under p ys)"
  by (simp add: under_def)

lemma under_map [simp]: "under p (map f xs) = list_all (\<lambda>x. prefix p (Path (f x))) xs"
  by (simp add: under_def list_all_iff)

lemma Path_NewOperation [simp]: "Path (NewOperation op path v) = path"
  by (simp add: NewOperation_def)

lemma prefix_makePath [simp]: "prefix p (makePath p key)"
  by (simp add: makePath_def)

lemma prefix_makePathInt [simp]: "prefix p (makePathInt p i)"
  by (simp add: makePathInt_def)

lemma under_trans: "under q ops \<Longrightarrow> prefix p q \<Longrightarrow> under p ops"
  by (auto simp: under_def list_all_iff)

lemmas engine_induct = handleValues_diff_diff_added_handleValues_aligned_compareEditDistance_backtrace.induct

text \<open>
  Each function of the engine returns the patch it was given with operations appended
  (never an error, never a panic), and the appended operations lie under the path.
  The matrix reads of \<open>backtrace\<close> are in range for a matrix of \<open>m + 1\<close> rows of
  \<open>n + 1\<close> cells and \<open>i \<le> m\<close>, \<open>j \<le> n\<close>.
\<close>

lemma engine_total:
  fixes patch :: "Operation list"
  shows "\<exists>ops. under p ops \<and> (\<forall>patch'. handleValues av bv p patch' = Inr (patch' @ ops))"
    and "\<exists>ops. under path ops \<and> (\<forall>patch'. diff a b path patch' = Inr (patch' @ ops))"
    and "\<exists>ops. under path' ops \<and> (\<forall>patch'. diff_added b' a' path' patch' = Inr (patch' @ ops))"
    and "n \<le> length at' \<longrightarrow> n \<le> length bt' \<longrightarrow>
         (\<exists>ops. under p ops \<and> (\<forall>patch'. handleValues_aligned i n at' bt' p patch' = Inr (patch' @ ops)))"
    and "\<exists>ops. under p ops \<and> compareEditDistance s t p = Inr ops"
    and "matrixDims matrix (length s + 1) (length t + 1) \<longrightarrow> i' \<le> length s \<longrightarrow> j \<le> length t \<longrightarrow>
         (\<exists>ops. under p ops \<and> backtrace s t p i' j matrix = Inr ops)"
proof (induction av bv p patch and a b path patch and b' a' path' patch and i n at' bt' p patch
    and s t p and s t p i' j matrix rule: engine_induct)
  case (1 av bv p patch)
  show ?case
  proof (cases "av = JNull \<and> bv = JNull")
    case True
    then show ?thesis by (simp add: handleValues.simps)
  next
    case nn: False
    show ?thesis
    proof (cases "typesAreCompatible av bv")
      case False
      with nn have "\<forall>patch'. handleValues av bv p patch' = Inr (patch' @ [NewOperation ''replace'' p bv])"
        by (simp add: handleValues.simps)
      moreover have "under p [NewOperation ''replace'' p bv]" by simp
      ultimately show ?thesis by blast
    next
      case comp: True
      have scalar: ?thesis if "isBasicType av"
      proof (cases "matchesValue av bv")
        case True
        with that nn comp have "\<forall>patch'. handleValues av bv p patch' = Inr (patch' @ [])"
          by (cases av) (simp_all add: handleValues.simps)
        then show ?thesis using under_Nil by blast
      next
        case False
        with that nn comp have
          "\<forall>patch'. handleValues av bv p patch' = Inr (patch' @ [NewOperation ''replace'' p bv])"
          by (cases av) (simp_all add: handleValues.simps)
        moreover have "under p [NewOperation ''replace'' p bv]" by simp
        ultimately show ?thesis by blast
      qed
      show ?thesis
      proof (cases av)
        case JNull
        with comp show ?thesis by simp
      next
        case (JBool x)
        then show ?thesis using scalar by simp
      next
        case (JNum x)
        then show ?thesis using scalar by simp
      next
        case (JString x)
        then show ?thesis using scalar by simp
      next
        case (JObject x)
        with comp obtain y where y: "bv = JObject y" by (cases bv) auto
        from "1.IH"(1) [OF nn _ JObject y] comp obtain ops where
          "under p ops" "\<forall>patch'. diff x y p patch' = Inr (patch' @ ops)" by auto
        with JObject y nn comp show ?thesis by (auto simp: handleValues.simps)
      next
        case (JArray x)
        with comp obtain y where y: "bv = JArray y" by (cases bv) auto
        show ?thesis
        proof (cases "isSimpleArray x \<and> isSimpleArray y")
          case True
          from "1.IH"(2) [OF nn _ JArray y True] comp obtain ops where
            "under p ops" "compareEditDistance x y p = Inr ops" by auto
          with JArray y nn comp True show ?thesis by (auto simp: handleValues.simps)
        next
          case False
          let ?n = "minInt (length x) (length y)"
          let ?pre = "map (\<lambda>i. NewOperation ''remove'' (makePathInt p i) JNull) (rev [?n..<length x]) @
             map (\<lambda>i. NewOperation ''add'' (makePathInt p i) (y ! i)) [?n..<length y]"
          have n: "?n \<le> length x" "?n \<le> length y" by (simp_all add: minInt_def)
          from "1.IH"(3) [OF nn _ JArray y False refl refl refl] comp n obtain ops where
            u: "under p ops"
            and ops: "\<forall>patch'. handleValues_aligned 0 ?n x y p patch' = Inr (patch' @ ops)" by auto
          have "\<forall>patch'. handleValues av bv p patch' = Inr (patch' @ (?pre @ ops))"
            using JArray y nn comp False ops by (auto simp: handleValues.simps Let_def)
          moreover have "under p (?pre @ ops)" using u by (simp add: list_all_iff)
          ultimately show ?thesis by blast
        qed
      qed
    qed
  qed
next
  case (2 a b path patch)
  then obtain ops where u: "under path ops"
    and ops: "\<forall>patch'. diff_added b a path patch' = Inr (patch' @ ops)" by auto
  have "\<forall>patch'. diff a b path patch' = Inr (patch' @ (ops @ diff_removed a b path))"
    using ops by (simp add: diff.simps)
  moreover have "under path (ops @ diff_removed a b path)"
    using u by (simp add: diff_removed_def list_all_iff)
  ultimately show ?case by blast
next
  case (3 a path patch)
  have "\<forall>patch'. diff_added [] a path patch' = Inr (patch' @ [])" by simp
  then show ?case using under_Nil by blast
next
  case (4 key bv b a path patch)
  show ?case
  proof (cases "map_of a key")
    case None
    from "4.IH"(1) [OF refl None] obtain ops where u: "under path ops"
      and ops: "\<forall>patch'. diff_added b a path patch' = Inr (patch' @ ops)" by auto
    have "\<forall>patch'. diff_added ((key, bv) # b) a path patch' =
        Inr (patch' @ (NewOperation ''add'' (makePath path key) bv # ops))"
      using None ops by (simp add: Let_def)
    moreover have "under path (NewOperation ''add'' (makePath path key) bv # ops)"
      using u by simp
    ultimately show ?thesis by blast
  next
    case (Some av)
    from "4.IH"(2) [OF refl Some] obtain ops1 where u1: "under (makePath path key) ops1"
      and ops1: "\<forall>patch'. handleValues av bv (makePath path key) patch' = Inr (patch' @ ops1)" by auto
    then have "handleValues av bv (makePath path key) patch = Inr (patch @ ops1)" by simp
    from "4.IH"(3) [OF refl Some this] obtain ops2 where u2: "under path ops2"
      and ops2: "\<forall>patch'. diff_added b a path patch' = Inr (patch' @ ops2)" by auto
    have "\<forall>patch'. diff_added ((key, bv) # b) a path patch' = Inr (patch' @ (ops1 @ ops2))"
      using Some ops1 ops2 by (simp add: Let_def)
    moreover have "under path (ops1 @ ops2)"
      using under_trans [OF u1 prefix_makePath] u2 by simp
    ultimately show ?thesis by blast
  qed
next
  case (5 i n at' bt' p patch)
  show ?case
  proof (intro impI)
    assume n: "n \<le> length at'" "n \<le> length bt'"
    show "\<exists>ops. under p ops \<and> (\<forall>patch'. handleValues_aligned i n at' bt' p patch' = Inr (patch' @ ops))"
    proof (cases "i < n")
      case False
      then have "\<forall>patch'. handleValues_aligned i n at' bt' p patch' = Inr (patch' @ [])"
        by (simp add: handleValues_aligned.simps)
      then show ?thesis using under_Nil by blast
    next
      case True
      with n have inb: "i < length at' \<and> i < length bt'" by simp
      from "5.IH"(1) [OF True inb] obtain ops1 where u1: "under (makePathInt p i) ops1" and
        ops1: "\<forall>patch'. handleValues (at' ! i) (bt' ! i) (makePathInt p i) patch' = Inr (patch' @ ops1)"
        by auto
      then have "handleValues (at' ! i) (bt' ! i) (makePathInt p i) patch = Inr (patch @ ops1)" by simp
      from "5.IH"(2) [OF True inb this] n obtain ops2 where u2: "under p ops2" and
        ops2: "\<forall>patch'. handleValues_aligned (i + 1) n at' bt' p patch' = Inr (patch' @ ops2)"
        by auto
      have "handleValues_aligned i n at' bt' p patch' = Inr (patch' @ (ops1 @ ops2))" for patch'
        using True inb ops1 ops2 by (subst handleValues_aligned.simps) simp
      moreover have "under p (ops1 @ ops2)"
        using under_trans [OF u1 prefix_makePathInt] u2 by simp
      ultimately show ?thesis by blast
    qed
  qed
next
  case (6 s t p)
  then show ?case
    using editDistanceMatrix_dims [of s t] by (simp add: compareEditDistance.simps)
next
  case (7 s t p i j matrix)
  show ?case
  proof (intro impI)
    assume dims: "matrixDims matrix (length s + 1) (length t + 1)"
      and i: "i \<le> length s" and j: "j \<le> length t"
    define c1 where "c1 = (0 < i \<and> matrix ! (i - 1) ! j + 1 = matrix ! i ! j)"
    define c2 where "c2 = (0 < j \<and> matrix ! i ! (j - 1) + 1 = matrix ! i ! j)"
    define c3 where "c3 = (0 < i \<and> 0 < j \<and> matrix ! (i - 1) ! (j - 1) + 1 = matrix ! i ! j)"
    define c4 where "c4 = (0 < i \<and> 0 < j \<and> matrix ! (i - 1) ! (j - 1) + 0 = matrix ! i ! j)"
    have e1: "(if 0 < i then cellPlusEq matrix (i - 1) j 1 i j else Inr False) = Inr c1"
      using i j by (simp add: c1_def cellPlusEq_dims [OF dims])
    have e2: "(if 0 < j then cellPlusEq matrix i (j - 1) 1 i j else Inr False) = Inr c2"
      using i j by (simp add: c2_def cellPlusEq_dims [OF dims])
    have e3: "(if 0 < i \<and> 0 < j then cellPlusEq matrix (i - 1) (j - 1) 1 i j else Inr False) = Inr c3"
      using i j by (simp add: c3_def cellPlusEq_dims [OF dims])
    have e4: "(if 0 < i \<and> 0 < j then cellPlusEq matrix (i - 1) (j - 1) 0 i j else Inr False) = Inr c4"
      using i j by (simp add: c4_def cellPlusEq_dims [OF dims])
    have unfold: "backtrace s t p i j matrix =
      (case Inr c1 of
       Inl err \<Rightarrow> Inl err
     | Inr True \<Rightarrow>
         (case backtrace s t p (i - 1) j matrix of
            Inl err \<Rightarrow> Inl err
          | Inr rest \<Rightarrow> Inr (NewOperation ''remove'' (makePathInt p (i - 1)) JNull # rest))
     | Inr False \<Rightarrow>
    (case Inr c2 of
       Inl err \<Rightarrow> Inl err
     | Inr True \<Rightarrow>
         (if j - 1 < length t then
            (case backtrace s t p i (j - 1) matrix of
               Inl err \<Rightarrow> Inl err
             | Inr rest \<Rightarrow> Inr (NewOperation ''add'' (makePathInt p i) (t ! (j - 1)) # rest))
          else Inl (Panic ''index out of range''))
     | Inr False \<Rightarrow>
    (case Inr c3 of
       Inl err \<Rightarrow> Inl err
     | Inr True \<Rightarrow>
         (if s = [] then Inl (Panic ''index out of range'')
          else if isBasicType (s ! 0) then
            (if j - 1 < length t then
               (case backtrace s t p (i - 1) (j - 1) matrix of
                  Inl err \<Rightarrow> Inl err
                | Inr rest \<Rightarrow>
                    Inr (NewOperation ''replace'' (makePathInt p (i - 1)) (t ! (j - 1)) # rest))
             else Inl (Panic ''index out of range''))
          else if i - 1 < length s \<and> j - 1 < length t then
            (case handleValues (s ! (i - 1)) (t ! (j - 1)) (makePathInt p (i - 1)) [] of
               Inl (Panic msg) \<Rightarrow> Inl (Panic msg)
             | r \<Rightarrow>
                 (let p2 = (case r of Inr ops \<Rightarrow> ops | Inl _ \<Rightarrow> []) in
                  case backtrace s t p (i - 1) (j - 1) matrix of
                    Inl err \<Rightarrow> Inl err
                  | Inr rest \<Rightarrow> Inr (p2 @ rest)))
          else Inl (Panic ''index out of range''))
     | Inr False \<Rightarrow>
    (case Inr c4 of
       Inl err \<Rightarrow> Inl err
     | Inr True \<Rightarrow> backtrace s t p (i - 1) (j - 1) matrix
     | Inr False \<Rightarrow> Inr []))))"
      by (subst backtrace.simps, unfold e1 e2 e3 e4) (rule refl)
    show "\<exists>ops. under p ops \<and> backtrace s t p i j matrix = Inr ops"
    proof (cases c1)
      case True
      from "7.IH"(1) [OF e1 eqTrueI [OF True]] dims i j obtain ops where
        "under p ops" "backtrace s t p (i - 1) j matrix = Inr ops" by auto
      with True show ?thesis unfolding unfold by simp
    next
      case n1: False
      then have f1: "c1 = False" by simp
      show ?thesis
      proof (cases c2)
        case True
        then have jt: "j - 1 < length t" using j by (auto simp: c2_def)
        from "7.IH"(2) [OF e1 f1 e2 eqTrueI [OF True] jt] dims i j obtain ops where
          "under p ops" "backtrace s t p i (j - 1) matrix = Inr ops" by auto
        with n1 True jt show ?thesis unfolding unfold by simp
      next
        case n2: False
        then have f2: "c2 = False" by simp
        show ?thesis
        proof (cases c3)
          case True
          then have pos: "0 < i" "0 < j" by (simp_all add: c3_def)
          with i j have ne: "s \<noteq> []" and inb: "i - 1 < length s \<and> j - 1 < length t" by auto
          show ?thesis
          proof (cases "isBasicType (s ! 0)")
            case b: True
            from "7.IH"(3) [OF e1 f1 e2 f2 e3 eqTrueI [OF True] ne b] inb dims i j obtain ops where
              "under p ops" "backtrace s t p (i - 1) (j - 1) matrix = Inr ops" by auto
            with n1 n2 True ne b inb show ?thesis unfolding unfold by simp
          next
            case nb: False
            from "7.IH"(4) [OF e1 f1 e2 f2 e3 eqTrueI [OF True] ne nb inb] obtain ops1 where
              u1: "under (makePathInt p (i - 1)) ops1" and
              ops1: "handleValues (s ! (i - 1)) (t ! (j - 1)) (makePathInt p (i - 1)) [] = Inr ops1"
              by auto
            from "7.IH"(6) [OF e1 f1 e2 f2 e3 eqTrueI [OF True] ne nb inb ops1 refl] dims i j
            obtain ops where "under p ops" "backtrace s t p (i - 1) (j - 1) matrix = Inr ops" by auto
            with n1 n2 True ne nb inb ops1 under_trans [OF u1 prefix_makePathInt]
            show ?thesis unfolding unfold by simp
          qed
        next
          case n3: False
          then have f3: "c3 = False" by simp
          show ?thesis
          proof (cases c4)
            case True
            from "7.IH"(7) [OF e1 f1 e2 f2 e3 f3 e4 eqTrueI [OF True]] dims i j obtain ops where
              "under p ops" "backtrace s t p (i - 1) (j - 1) matrix = Inr ops" by auto
            with n1 n2 n3 True show ?thesis unfolding unfold by simp
          next
            case False
            with n1 n2 n3 show ?thesis unfolding unfold by simp
          qed
        qed
      qed
    qed
  qed
qed

text \<open>The operations \<open>handleValues\<close> appends.\<close>

definition handleValues_ops :: "json \<Rightarrow> json \<Rightarrow> string \<Rightarrow> Operation list" where
  "handleValues_ops av bv p = (case handleValues av bv p [] of Inr ops \<Rightarrow> ops | Inl _ \<Rightarrow> [])"

lemma handleValues_acc:
  "handleValues av bv p patch = Inr (patch @ handleValues_ops av bv p)"
  using engine_total(1) [of p av bv] by (auto simp: handleValues_ops_def)







lemma isSimpleArray_values_flat:
  "isSimpleArray_values av = list_all (\<lambda>e. isBasicType (snd e) \<or> snd e = JNull) av"
  by (induction av rule: isSimpleArray_values.induct) auto

section \<open>Positional array diff\<close>



section \<open>No error path\<close>

text \<open>
  Claim C10. \<open>CreatePatch\<close> returns a patch and a nil error for every pair of values, and
  \<open>CreatePatchFromBytes\<close> fails only with \<open>errBadJSONDoc\<close>, and only when decoding one of its
  two inputs failed.
\<close>

theorem CreatePatch_no_error:
  "(\<exists>ops. CreatePatch a b = Inr ops) \<and>
   (\<forall>err. CreatePatchFromBytes unmarshal x y = Inl err \<longrightarrow>
      err = errBadJSONDoc \<and> (isl (unmarshal x) \<or> isl (unmarshal y)))"
proof -
  have tot: "CreatePatch a b = Inr (handleValues_ops a b [])" for a b
    by (simp add: CreatePatch_def handleValues_acc)
  show ?thesis
    by (auto simp: CreatePatchFromBytes_def tot split: sum.splits)
qed

theorem CreatePatch_no_error_witness:
  "CreatePatchFromBytes (\<lambda>s. if s = ''null'' then Inr JNull else Inl (Error ''syntax error'')) ''{'' ''null''
     = Inl errBadJSONDoc \<and>
   isl ((\<lambda>s. if s = ''null'' then Inr JNull else Inl (Error ''syntax error'')) ''{'') \<and>
   CreatePatchFromBytes (\<lambda>s. if s = ''null'' then Inr JNull else Inl (Error ''syntax error'')) ''null'' ''null''
     = Inr []"
  using CreatePatch_no_error [of JNull JNull
      "\<lambda>s. if s = ''null'' then Inr JNull else Inl (Error ''syntax error'')" "''{''" "''null''"]
  by (simp add: CreatePatchFromBytes_def CreatePatch_def handleValues.simps)

section \<open>Array classification\<close>

text \<open>The specification's classification in its own words: the elements before the first
  object or array are scanned and must all be scalars; if the scan stops at an object, the
  array is simple exactly when that object is flat (every value a scalar or null); if it
  stops at an array, the array is not simple.\<close>

definition flatObject :: "(string \<times> json) list \<Rightarrow> bool" where
  "flatObject m = list_all (\<lambda>e. scalarKind (kindOf (snd e)) \<or> kindOf (snd e) = KNull) m"

definition classifiedSimple :: "json list \<Rightarrow> bool" where
  "classifiedSimple a =
    (let scanned = takeWhile (\<lambda>v. kindOf v \<noteq> KObject \<and> kindOf v \<noteq> KArray) a;
         rest = dropWhile (\<lambda>v. kindOf v \<noteq> KObject \<and> kindOf v \<noteq> KArray) a
     in list_all (\<lambda>v. scalarKind (kindOf v)) scanned \<and>
        (case rest of
           [] \<Rightarrow> True
         | JObject m # _ \<Rightarrow> flatObject m
         | _ \<Rightarrow> False))"

lemma isBasicType_kind: "isBasicType v = scalarKind (kindOf v)"
  by (cases v) (simp_all add: scalarKind_def)

lemma JNull_kind: "(v = JNull) = (kindOf v = KNull)"
  by (cases v) simp_all

lemma isSimpleArray_classified: "isSimpleArray a = classifiedSimple a"
proof (induction a rule: isSimpleArray.induct)
  case (5 av a)
  show ?case
    by (simp add: classifiedSimple_def flatObject_def isSimpleArray_values_flat isBasicType_kind JNull_kind)
qed (simp_all add: classifiedSimple_def scalarKind_def)

text \<open>
  Claim C4. \<open>isSimpleArray\<close> is that classification, and \<open>handleValues\<close> on two arrays
  takes the edit-distance path exactly when both are classified simple, the positional
  path otherwise.
\<close>

theorem array_classification:
  "isSimpleArray a = classifiedSimple a \<and>
   handleValues (JArray at') (JArray bt') p patch =
     (if classifiedSimple at' \<and> classifiedSimple bt' then
        (case compareEditDistance at' bt' p of
           Inl err \<Rightarrow> Inl err
         | Inr ops \<Rightarrow> Inr (patch @ ops))
      else
        handleValues_aligned 0 (min (length at') (length bt')) at' bt' p
          (patch @
           map (\<lambda>i. NewOperation ''remove'' (makePathInt p i) JNull)
             (rev [min (length at') (length bt')..<length at']) @
           map (\<lambda>i. NewOperation ''add'' (makePathInt p i) (bt' ! i))
             [min (length at') (length bt')..<length bt']))"
proof -
  have n: "minInt (length at') (length bt') = min (length at') (length bt')"
    by (simp add: minInt_def min_def)
  show ?thesis
    by (simp add: isSimpleArray_classified [symmetric] handleValues.simps Let_def n)
qed

section \<open>Applying a patch\<close>

text \<open>
  The repository has no patch applicator: its tests apply the patches with a library.
  What follows is the applicator of RFC 6902 for the three operations the engine emits,
  with the JSON pointers of RFC 6901: a pointer is empty (the whole document) or a
  sequence of \<^verbatim>\<open>/\<close>-prefixed tokens, in which \<^verbatim>\<open>~1\<close> stands for \<^verbatim>\<open>/\<close> and \<^verbatim>\<open>~0\<close> for \<^verbatim>\<open>~\<close>; an
  array index is \<^verbatim>\<open>0\<close> or digits without a leading zero; \<^verbatim>\<open>add\<close> sets an object member or
  inserts before an array index (at most the length, or \<^verbatim>\<open>-\<close>), \<^verbatim>\<open>remove\<close> and \<^verbatim>\<open>replace\<close>
  need their target to exist. \<open>None\<close> is the applicator's error.
\<close>

fun decodeToken :: "string \<Rightarrow> string" where
  "decodeToken [] = []"
| "decodeToken [c] = [c]"
| "decodeToken (c # d # r) =
    (if c = CHR ''~'' \<and> d = CHR ''1'' then CHR ''/'' # decodeToken r
     else if c = CHR ''~'' \<and> d = CHR ''0'' then CHR ''~'' # decodeToken r
     else c # decodeToken (d # r))"

fun splitSlash :: "string \<Rightarrow> string \<Rightarrow> string list" where
  "splitSlash tok [] = [tok]"
| "splitSlash tok (c # r) =
    (if c = CHR ''/'' then tok # splitSlash [] r else splitSlash (tok @ [c]) r)"

definition parsePointer :: "string \<Rightarrow> string list option" where
  "parsePointer s =
    (case s of
       [] \<Rightarrow> Some []
     | c # r \<Rightarrow> if c = CHR ''/'' then Some (map decodeToken (splitSlash [] r)) else None)"

definition digitValue :: "char \<Rightarrow> nat option" where
  "digitValue c = map_of (zip ''0123456789'' [0..<10]) c"

fun digitsValue :: "nat \<Rightarrow> string \<Rightarrow> nat option" where
  "digitsValue acc [] = Some acc"
| "digitsValue acc (c # r) =
    (case digitValue c of None \<Rightarrow> None | Some d \<Rightarrow> digitsValue (10 * acc + d) r)"

definition parseIndex :: "string \<Rightarrow> nat option" where
  "parseIndex tok =
    (if tok = [] \<or> (length tok > 1 \<and> hd tok = CHR ''0'') then None else digitsValue 0 tok)"

fun setMember :: "(string \<times> json) list \<Rightarrow> string \<Rightarrow> json \<Rightarrow> (string \<times> json) list" where
  "setMember [] key v = [(key, v)]"
| "setMember ((key', v') # m) key v =
    (if key' = key then (key, v) # m else (key', v') # setMember m key v)"

definition deleteMember :: "(string \<times> json) list \<Rightarrow> string \<Rightarrow> (string \<times> json) list" where
  "deleteMember m key = filter (\<lambda>e. fst e \<noteq> key) m"

fun applyAt :: "string list \<Rightarrow> (json \<Rightarrow> json option) \<Rightarrow> json \<Rightarrow> json option" where
  "applyAt [] f doc = f doc"
| "applyAt (tok # ts) f (JObject m) =
    (case map_of m tok of
       None \<Rightarrow> None
     | Some child \<Rightarrow>
         (case applyAt ts f child of
            None \<Rightarrow> None
          | Some child' \<Rightarrow> Some (JObject (setMember m tok child'))))"
| "applyAt (tok # ts) f (JArray xs) =
    (case parseIndex tok of
       None \<Rightarrow> None
     | Some i \<Rightarrow>
         if i < length xs then
           (case applyAt ts f (xs ! i) of
              None \<Rightarrow> None
            | Some child' \<Rightarrow> Some (JArray (xs[i := child'])))
         else None)"
| "applyAt (tok # ts) f _ = None"

definition addMember :: "string \<Rightarrow> json \<Rightarrow> json \<Rightarrow> json option" where
  "addMember tok v parent =
    (case parent of
       JObject m \<Rightarrow> Some (JObject (setMember m tok v))
     | JArray xs \<Rightarrow>
         if tok = ''-'' then Some (JArray (xs @ [v]))
         else (case parseIndex tok of
                 None \<Rightarrow> None
               | Some i \<Rightarrow> if i \<le> length xs then Some (JArray (take i xs @ v # drop i xs)) else None)
     | _ \<Rightarrow> None)"

definition removeMember :: "string \<Rightarrow> json \<Rightarrow> json option" where
  "removeMember tok parent =
    (case parent of
       JObject m \<Rightarrow> if map_of m tok = None then None else Some (JObject (deleteMember m tok))
     | JArray xs \<Rightarrow>
         (case parseIndex tok of
            None \<Rightarrow> None
          | Some i \<Rightarrow> if i < length xs then Some (JArray (take i xs @ drop (Suc i) xs)) else None)
     | _ \<Rightarrow> None)"

definition applyOperation :: "Operation \<Rightarrow> json \<Rightarrow> json option" where
  "applyOperation op doc =
    (case parsePointer (Path op) of
       None \<Rightarrow> None
     | Some ts \<Rightarrow>
         if Operation op = ''add'' then
           (if ts = [] then Some (Value op)
            else applyAt (butlast ts) (addMember (last ts) (Value op)) doc)
         else if Operation op = ''remove'' then
           (if ts = [] then None
            else applyAt (butlast ts) (removeMember (last ts)) doc)
         else if Operation op = ''replace'' then applyAt ts (\<lambda>_. Some (Value op)) doc
         else None)"

fun applyPatch :: "Operation list \<Rightarrow> json \<Rightarrow> json option" where
  "applyPatch [] doc = Some doc"
| "applyPatch (op # ops) doc =
    (case applyOperation op doc of None \<Rightarrow> None | Some doc' \<Rightarrow> applyPatch ops doc')"

section \<open>Inputs on which the engine departs from its claims\<close>

text \<open>
  Claim C1 (round trip). \<open>makePath\<close> adds no separator to a path that ends in \<^verbatim>\<open>/\<close>, which
  is the pointer of a member whose key is empty. For the documents
  \<^verbatim>\<open>{"":{"x":1},"x":7}\<close> and \<^verbatim>\<open>{"":{"x":2},"x":7}\<close> the patch is one \<^verbatim>\<open>replace\<close> at \<^verbatim>\<open>/x\<close>
  where the changed member is at \<^verbatim>\<open>//x\<close>; applied to the source it changes the other
  member. Without the top-level \<^verbatim>\<open>x\<close> the patch does not apply at all.
\<close>

theorem roundtrip_fails_below_empty_key:
  "CreatePatch (JObject [([], JObject [(''x'', JNum 1)]), (''x'', JNum 7)])
               (JObject [([], JObject [(''x'', JNum 2)]), (''x'', JNum 7)]) =
     Inr [NewOperation ''replace'' ''/x'' (JNum 2)] \<and>
   applyPatch [NewOperation ''replace'' ''/x'' (JNum 2)]
     (JObject [([], JObject [(''x'', JNum 1)]), (''x'', JNum 7)]) =
     Some (JObject [([], JObject [(''x'', JNum 1)]), (''x'', JNum 2)]) \<and>
   applyPatch [NewOperation ''replace'' ''//x'' (JNum 2)]
     (JObject [([], JObject [(''x'', JNum 1)]), (''x'', JNum 7)]) =
     Some (JObject [([], JObject [(''x'', JNum 2)]), (''x'', JNum 7)]) \<and>
   CreatePatch (JObject [([], JObject [(''x'', JNum 1)])]) (JObject [([], JObject [(''x'', JNum 2)])]) =
     Inr [NewOperation ''replace'' ''/x'' (JNum 2)] \<and>
   applyPatch [NewOperation ''replace'' ''/x'' (JNum 2)] (JObject [([], JObject [(''x'', JNum 1)])]) = None"
  by code_simp

text \<open>
  Claim C2 (identity). The array \<^verbatim>\<open>[1,{"a":null}]\<close> diffed against itself gives a
  \<^verbatim>\<open>replace\<close> of its second element: \<open>matchesValue\<close> is false on the element and itself,
  and the substitution step tests \<^verbatim>\<open>s[0]\<close>, a number, instead of the element.
\<close>

theorem identity_fails_on_mixed_array:
  "CreatePatch (JArray [JNum 1, JObject [(''a'', JNull)]]) (JArray [JNum 1, JObject [(''a'', JNull)]]) =
     Inr [NewOperation ''replace'' ''/1'' (JObject [(''a'', JNull)])]"
  by code_simp

text \<open>
  Claim C3 (substitution step). For \<^verbatim>\<open>[1,{"k":"a"}]\<close> and \<^verbatim>\<open>[1,{"k":"b"}]\<close> the traceback
  takes the substitution step at cell (2, 2). The source element at index 1 is an object,
  not a scalar, yet one \<^verbatim>\<open>replace\<close> of the whole element is emitted; \<open>handleValues\<close> on
  the pair gives the finer \<^verbatim>\<open>replace\<close> at \<^verbatim>\<open>/1/k\<close>.
\<close>

theorem substitution_tests_first_element:
  "editDistanceMatrix [JNum 1, JObject [(''k'', JString ''a'')]] [JNum 1, JObject [(''k'', JString ''b'')]] =
     [[0, 1, 2], [1, 0, 1], [2, 1, 1]] \<and>
   isBasicType ([JNum 1, JObject [(''k'', JString ''a'')]] ! (2 - 1)) = False \<and>
   CreatePatch (JArray [JNum 1, JObject [(''k'', JString ''a'')]])
               (JArray [JNum 1, JObject [(''k'', JString ''b'')]]) =
     Inr [NewOperation ''replace'' ''/1'' (JObject [(''k'', JString ''b'')])] \<and>
   handleValues (JObject [(''k'', JString ''a'')]) (JObject [(''k'', JString ''b'')]) ''/1'' [] =
     Inr [NewOperation ''replace'' ''/1/k'' (JString ''b'')]"
  by code_simp

text \<open>
  Claim C8 (the value key). \<open>MarshalJSON\<close> writes the path between two quotes as it is,
  with no escaping. The key \<^verbatim>\<open>x","value":"y\<close> of a source object that the target lacks
  gives a \<^verbatim>\<open>remove\<close> whose value is nil and whose path ends in that key. Its serialized
  object has a member \<^verbatim>\<open>value\<close>, where the claim says a \<^verbatim>\<open>remove\<close> with no value omits it:
  the text is the one of a \<^verbatim>\<open>remove\<close> at \<^verbatim>\<open>/x\<close> that carries the string \<^verbatim>\<open>y\<close>, and that
  operation does not apply to the source.
\<close>

theorem remove_serializes_value_key:
  "CreatePatch (JObject [(''x\",\"value\":\"y'', JNum 1)]) (JObject []) =
     Inr [NewOperation ''remove'' ''/x\",\"value\":\"y'' JNull] \<and>
   Operation (NewOperation ''remove'' ''/x\",\"value\":\"y'' JNull) = ''remove'' \<and>
   Value (NewOperation ''remove'' ''/x\",\"value\":\"y'' JNull) = JNull \<and>
   MarshalJSON marshal (NewOperation ''remove'' ''/x\",\"value\":\"y'' JNull) =
     Inr ''{\"op\":\"remove\",\"path\":\"/x\",\"value\":\"y\"}'' \<and>
   memberNames ''{\"op\":\"remove\",\"path\":\"/x\",\"value\":\"y\"}'' = [''op'', ''path'', ''value''] \<and>
   MarshalJSON (\<lambda>v. Inr ''\"y\"'') (NewOperation ''remove'' ''/x'' (JString ''y'')) =
     Inr ''{\"op\":\"remove\",\"path\":\"/x\",\"value\":\"y\"}'' \<and>
   applyPatch [NewOperation ''remove'' ''/x'' (JString ''y'')]
     (JObject [(''x\",\"value\":\"y'', JNum 1)]) = None"
proof -
  have "CreatePatch (JObject [(''x\",\"value\":\"y'', JNum 1)]) (JObject []) =
     Inr [NewOperation ''remove'' ''/x\",\"value\":\"y'' JNull]"
    by code_simp
  moreover have "MarshalJSON marshal (NewOperation ''remove'' ''/x\",\"value\":\"y'' JNull) =
     Inr ''{\"op\":\"remove\",\"path\":\"/x\",\"value\":\"y\"}''"
    by (simp add: MarshalJSON_def NewOperation_def)
  moreover have "MarshalJSON (\<lambda>v. Inr ''\"y\"'') (NewOperation ''remove'' ''/x'' (JString ''y'')) =
     Inr ''{\"op\":\"remove\",\"path\":\"/x\",\"value\":\"y\"}''"
    by (simp add: MarshalJSON_def NewOperation_def)
  moreover have "memberNames ''{\"op\":\"remove\",\"path\":\"/x\",\"value\":\"y\"}'' = [''op'', ''path'', ''value'']"
    by (simp add: memberNames_def)
  moreover have "applyPatch [NewOperation ''remove'' ''/x'' (JString ''y'')]
     (JObject [(''x\",\"value\":\"y'', JNum 1)]) = None"
    by code_simp
  ultimately show ?thesis by (simp add: NewOperation_def)
qed

theorem remove_serializes_value_key_witness:
  "MarshalJSON (\<lambda>v. Inl (Error ''unsupported'')) (NewOperation ''remove'' ''/x\",\"value\":\"y'' JNull) =
     Inr ''{\"op\":\"remove\",\"path\":\"/x\",\"value\":\"y\"}'' \<and>
   memberNames ''{\"op\":\"remove\",\"path\":\"/x\",\"value\":\"y\"}'' = [''op'', ''path'', ''value'']"
  using remove_serializes_value_key [of "\<lambda>v. Inl (Error ''unsupported'')"] by blast

section \<open>The operations as functions of the inputs\<close>








section \<open>Key order\<close>

text \<open>
  \<open>canon\<close> lists the members of every object in the order of their keys: two values
  are the same JSON value, whatever order their members are enumerated in, exactly when
  their canonical forms are equal. \<open>canon_op\<close> does this to the value of an operation.
\<close>

primrec canon :: "json \<Rightarrow> json" where
  "canon JNull = JNull"
| "canon (JBool x) = JBool x"
| "canon (JNum x) = JNum x"
| "canon (JString x) = JString x"
| "canon (JObject m) = JObject (sort_key fst (map (map_prod id canon) m))"
| "canon (JArray xs) = JArray (map canon xs)"

definition canon_op :: "Operation \<Rightarrow> Operation" where
  "canon_op op = op\<lparr>Value := canon (Value op)\<rparr>"


lemma kindOf_canon [simp]: "kindOf (canon v) = kindOf v"
  by (cases v) simp_all

lemma canon_eq_JNull [simp]: "(canon v = JNull) = (v = JNull)"
  by (cases v) simp_all

lemma isBasicType_canon [simp]: "isBasicType (canon v) = isBasicType v"
  by (cases v) simp_all

lemma typesAreCompatible_canon [simp]:
  "typesAreCompatible (canon av) (canon bv) = typesAreCompatible av bv"
  by (simp add: typesAreCompatible_kinds)





lemma wf_json_nth: "wf_json (JArray xs) \<Longrightarrow> i < length xs \<Longrightarrow> wf_json (xs ! i)"
  by (simp add: list_all_length)







lemma canon_idem [simp]: "canon (canon v) = canon v"
proof (induction v)
  case (JObject m)
  let ?ce = "map_prod id canon :: string \<times> json \<Rightarrow> string \<times> json"
  let ?m' = "sort_key fst (map ?ce m)"
  have fx: "?ce e = e" if "e \<in> set ?m'" for e
  proof -
    from that obtain e0 where e0: "e0 \<in> set m" "e = ?ce e0" by auto
    obtain k v where kv: "e0 = (k, v)" by (cases e0)
    from e0 kv JObject.IH [of e0 v] show ?thesis by simp
  qed
  then have "map ?ce ?m' = ?m'" by (rule map_idI)
  moreover have "sorted (map fst ?m')" by simp
  ultimately have "sort_key fst (map ?ce ?m') = ?m'"
    by (simp add: sort_key_id_if_sorted)
  then show ?case by simp
next
  case (JArray xs)
  have "map canon (map canon xs) = map canon xs"
    by (rule map_idI) (use JArray in auto)
  then show ?case by simp
qed simp_all

lemma isSimpleArray_canon [simp]: "isSimpleArray (map canon xs) = isSimpleArray xs"
proof (induction xs rule: isSimpleArray.induct)
  case (5 av a)
  show ?case
    by (auto simp: isSimpleArray_values_flat list_all_iff)
qed simp_all




lemma canon_op_NewOperation [simp]:
  "canon_op (NewOperation op path v) = NewOperation op path (canon v)"
  by (simp add: canon_op_def NewOperation_def)











end
